theory Spec2Isabelle
  imports Main "HOL-Library.Word" "HOL-Library.Multiset" "HOL-Library.List_Lexorder"
    "HOL-Library.Sublist"
begin

section \<open>JavaScript strings\<close>

text \<open>
  A JavaScript string is a sequence of UTF-16 code units. The scraper compares, trims and
  cuts strings by code unit, so a string is modelled as a list of 16-bit words. ASCII
  literals of the source are written \<open>lit ''...''\<close>; the few non-ASCII literals are given
  by their code units.
\<close>

type_synonym jsstring = "16 word list"

definition lit :: "string \<Rightarrow> jsstring" where
  "lit s = map of_char s"

definition startsWith :: "jsstring \<Rightarrow> jsstring \<Rightarrow> bool" where
  \<comment> \<open>\<open>s.startsWith(p)\<close>\<close>
  "startsWith s p = (take (length p) s = p)"

definition endsWith :: "jsstring \<Rightarrow> jsstring \<Rightarrow> bool" where
  \<comment> \<open>\<open>s.endsWith(p)\<close>\<close>
  "endsWith s p = (length p \<le> length s \<and> drop (length s - length p) s = p)"

definition replaceAllUnit :: "16 word \<Rightarrow> 16 word \<Rightarrow> jsstring \<Rightarrow> jsstring" where
  \<comment> \<open>\<open>s.replace(/c/g, d)\<close> for a one-unit pattern and a one-unit replacement\<close>
  "replaceAllUnit c d s = map (\<lambda>x. if x = c then d else x) s"

definition stripLeadingUnit :: "16 word \<Rightarrow> jsstring \<Rightarrow> jsstring" where
  \<comment> \<open>\<open>s.replace(/^c/, '')\<close>: at most one unit, and only at the start\<close>
  "stripLeadingUnit c s = (case s of [] \<Rightarrow> [] | x # xs \<Rightarrow> if x = c then xs else s)"

fun replaceFirst :: "jsstring \<Rightarrow> jsstring \<Rightarrow> jsstring \<Rightarrow> jsstring" where
  \<comment> \<open>\<open>s.replace(pat, rep)\<close> with a string pattern: only the first occurrence is replaced\<close>
  "replaceFirst pat rep [] = (if pat = [] then rep else [])"
| "replaceFirst pat rep (c # cs) =
     (if startsWith (c # cs) pat then rep @ drop (length pat) (c # cs)
      else c # replaceFirst pat rep cs)"

fun digitsOf :: "nat \<Rightarrow> nat \<Rightarrow> jsstring" where
  \<comment> \<open>the decimal digits of \<open>n\<close>, most significant first; the first argument bounds the
      number of digits\<close>
  "digitsOf 0 n = []"
| "digitsOf (Suc k) n =
     (if n < 10 then [of_nat (48 + n)]
      else digitsOf k (n div 10) @ [of_nat (48 + n mod 10)])"

definition numberToString :: "nat \<Rightarrow> jsstring" where
  \<comment> \<open>\<open>`${n}`\<close> for a non-negative integer\<close>
  "numberToString n = digitsOf (Suc n) n"

section \<open>The platform's URL class\<close>

text \<open>
  \<open>new URL(...)\<close> is the WHATWG URL class of the platform (Node for the crawl loop, the
  browser for the functions evaluated inside the page). It is not code of the scraper, so
  the operations the scraper uses are parameters of the model: \<open>'u\<close> is the type of URL
  objects, \<open>None\<close> stands for the \<open>TypeError\<close> the constructor throws.
\<close>

record 'u url_api =
  newURL :: "jsstring \<Rightarrow> 'u option"                    \<comment> \<open>\<open>new URL(s)\<close>\<close>
  newURLWithBase :: "jsstring \<Rightarrow> jsstring \<Rightarrow> 'u option"   \<comment> \<open>\<open>new URL(s, base)\<close>\<close>
  clearHash :: "'u \<Rightarrow> 'u"                                \<comment> \<open>\<open>u.hash = ''\<close>\<close>
  href :: "'u \<Rightarrow> jsstring"                                \<comment> \<open>\<open>u.toString()\<close>, \<open>u.href\<close>\<close>
  pathname :: "'u \<Rightarrow> jsstring"                            \<comment> \<open>\<open>u.pathname\<close>\<close>
  hostname :: "'u \<Rightarrow> jsstring"                            \<comment> \<open>\<open>u.hostname\<close>\<close>

section \<open>removeFragment\<close>

definition removeFragment :: "'u url_api \<Rightarrow> jsstring \<Rightarrow> jsstring" where
  \<comment> \<open>try: parse, clear the hash, serialise; catch: return the argument\<close>
  "removeFragment api urlString =
     (case newURL api urlString of
        Some parsedUrl \<Rightarrow> href api (clearHash api parsedUrl)
      | None \<Rightarrow> urlString)"

section \<open>File names\<close>

definition pageFileName :: "'u url_api \<Rightarrow> jsstring \<Rightarrow> jsstring option" where
  \<comment> \<open>scrapeToMarkdown, the file name of a page document; \<open>None\<close>: \<open>new URL\<close> threw\<close>
  "pageFileName api normalizedUrl =
     (case newURL api normalizedUrl of
        None \<Rightarrow> None
      | Some parsedUrl \<Rightarrow>
          (let fileName = stripLeadingUnit 95 (replaceAllUnit 47 95 (pathname api parsedUrl));
               fileName = (if fileName = [] then lit ''index'' else fileName);
               fileName = (if \<not> endsWith fileName (lit ''.md'') then fileName @ lit ''.md''
                           else fileName)
           in Some fileName))"

definition indexFileName :: "'u url_api \<Rightarrow> jsstring \<Rightarrow> jsstring option" where
  \<comment> \<open>createIndexMarkdown, the file name an index entry links to; \<open>None\<close>: \<open>new URL\<close> threw\<close>
  "indexFileName api normalizedUrl =
     (case newURL api normalizedUrl of
        None \<Rightarrow> None
      | Some parsedUrl \<Rightarrow>
          (let fileName = stripLeadingUnit 95 (replaceAllUnit 47 95 (pathname api parsedUrl));
               fileName = (if fileName = [] then lit ''index'' else fileName);
               fileName = (if \<not> endsWith fileName (lit ''.md'') then fileName @ lit ''.md''
                           else fileName)
           in Some fileName))"

definition screenshotName :: "jsstring \<Rightarrow> jsstring" where
  \<comment> \<open>\<open>fileName.replace('.md', '.png')\<close>\<close>
  "screenshotName fileName = replaceFirst (lit ''.md'') (lit ''.png'') fileName"

section \<open>Text cleaning\<close>

definition isWhiteSpace :: "16 word \<Rightarrow> bool" where
  \<comment> \<open>the code units matched by \<open>\s\<close> and removed by \<open>trim()\<close>: TAB, LF, VT, FF, CR, SP,
      NBSP, U+1680, U+2000..U+200A, U+2028, U+2029, U+202F, U+205F, U+3000, U+FEFF\<close>
  "isWhiteSpace c =
     (c = 9 \<or> c = 10 \<or> c = 11 \<or> c = 12 \<or> c = 13 \<or> c = 32 \<or> c = 0xA0 \<or> c = 0x1680
      \<or> (0x2000 \<le> c \<and> c \<le> 0x200A)
      \<or> c = 0x2028 \<or> c = 0x2029 \<or> c = 0x202F \<or> c = 0x205F \<or> c = 0x3000 \<or> c = 0xFEFF)"

definition trim :: "jsstring \<Rightarrow> jsstring" where
  "trim s = rev (dropWhile isWhiteSpace (rev (dropWhile isWhiteSpace s)))"

fun replaceRuns :: "(16 word \<Rightarrow> bool) \<Rightarrow> jsstring \<Rightarrow> jsstring \<Rightarrow> jsstring" where
  \<comment> \<open>\<open>s.replace(/p+/g, r)\<close> for a character class \<open>p\<close>: every maximal run of \<open>p\<close>-units
      becomes one copy of \<open>r\<close> (written at the last unit of the run)\<close>
  "replaceRuns p r [] = []"
| "replaceRuns p r [c] = (if p c then r else [c])"
| "replaceRuns p r (c # d # cs) =
     (if p c then (if p d then replaceRuns p r (d # cs) else r @ replaceRuns p r (d # cs))
      else c # replaceRuns p r (d # cs))"

definition cleanText :: "jsstring \<Rightarrow> jsstring" where
  "cleanText text =
     (if text = [] then []
      else replaceRuns (\<lambda>c. c = 10) [10] (replaceRuns isWhiteSpace [32] (trim text)))"

fun splitOn :: "16 word \<Rightarrow> jsstring \<Rightarrow> jsstring list" where
  \<comment> \<open>\<open>s.split(c)\<close> for a one-unit separator; the empty string gives one empty piece\<close>
  "splitOn c [] = [[]]"
| "splitOn c (x # xs) =
     (if x = c then [] # splitOn c xs
      else (case splitOn c xs of [] \<Rightarrow> [[x]] | y # ys \<Rightarrow> (x # y) # ys))"

fun joinWith :: "jsstring \<Rightarrow> jsstring list \<Rightarrow> jsstring" where
  \<comment> \<open>\<open>pieces.join(sep)\<close>\<close>
  "joinWith sep [] = []"
| "joinWith sep [x] = x"
| "joinWith sep (x # y # ys) = x @ sep @ joinWith sep (y # ys)"

section \<open>The document tree\<close>

text \<open>
  An element carries what the extractor reads from it: \<open>tagName.toLowerCase()\<close>, its
  attributes, the \<open>display\<close> and \<open>visibility\<close> of its computed style, and its child nodes.
  A child node is an element, a text node, or a node of another type (a comment).
\<close>

datatype element =
  Element (tagName: jsstring) (attributes: "(jsstring \<times> jsstring) list")
          (display: jsstring) (visibility: jsstring) (childNodes: "node list")
and node = ElementNode element | TextNode jsstring | OtherNode

fun textContent :: "element \<Rightarrow> jsstring"
and nodesTextContent :: "node list \<Rightarrow> jsstring" where
  "textContent (Element t a d v ns) = nodesTextContent ns"
| "nodesTextContent [] = []"
| "nodesTextContent (ElementNode e # ns) = textContent e @ nodesTextContent ns"
| "nodesTextContent (TextNode s # ns) = s @ nodesTextContent ns"
| "nodesTextContent (OtherNode # ns) = nodesTextContent ns"

fun children :: "node list \<Rightarrow> element list" where
  \<comment> \<open>\<open>element.children\<close>: the child nodes that are elements\<close>
  "children [] = []"
| "children (ElementNode e # ns) = e # children ns"
| "children (n # ns) = children ns"

definition getAttribute :: "(jsstring \<times> jsstring) list \<Rightarrow> jsstring \<Rightarrow> jsstring option" where
  "getAttribute attrs name = map_of attrs name"

section \<open>elementToMarkdown\<close>

definition skipTags :: "jsstring list" where
  "skipTags = [lit ''script'', lit ''style'', lit ''noscript'', lit ''svg'', lit ''nav'',
               lit ''footer'', lit ''iframe'']"

definition containerTags :: "jsstring list" where
  "containerTags = [lit ''div'', lit ''section'', lit ''article'', lit ''main'', lit ''aside'',
                    lit ''header'', lit ''span'']"

definition heading :: "nat \<Rightarrow> element \<Rightarrow> jsstring" where
  \<comment> \<open>the cases \<open>h1\<close> .. \<open>h6\<close>\<close>
  "heading n e = replicate n 35 @ [32] @ cleanText (textContent e) @ [10, 10]"

definition ulItems :: "element list \<Rightarrow> jsstring" where
  "ulItems cs =
     concat (map (\<lambda>child. if tagName child = lit ''li''
                            then lit ''* '' @ cleanText (textContent child) @ [10] else [])
                 cs)"

definition olItems :: "element list \<Rightarrow> jsstring" where
  \<comment> \<open>\<open>forEach((child, i) => ...)\<close>: \<open>i\<close> is the position among all element children\<close>
  "olItems cs =
     concat (map (\<lambda>(i, child). if tagName child = lit ''li''
                                 then numberToString (i + 1) @ lit ''. ''
                                      @ cleanText (textContent child) @ [10]
                                 else [])
                 (enumerate 0 cs))"

definition blockquote :: "element \<Rightarrow> jsstring" where
  "blockquote e =
     (let quote = cleanText (textContent e)
      in joinWith [10] (map (\<lambda>line. lit ''> '' @ line) (splitOn 10 quote)) @ [10, 10])"

definition tablePlaceholder :: jsstring where
  "tablePlaceholder =
     [0x5B, 0x8868, 0x306F, 0x7701, 0x7565, 0x3055, 0x308C, 0x307E, 0x3057, 0x305F, 0x5D, 10, 10]"

definition anchor :: "'u url_api \<Rightarrow> jsstring \<Rightarrow> element \<Rightarrow> jsstring option" where
  \<comment> \<open>the case \<open>a\<close>; \<open>None\<close>: \<open>new URL(href, baseUrl)\<close> threw\<close>
  "anchor api baseUrl e =
     (case getAttribute (attributes e) (lit ''href'') of
        None \<Rightarrow> Some (cleanText (textContent e))
      | Some h \<Rightarrow>
          if h \<noteq> [] \<and> \<not> startsWith h (lit ''javascript:'') \<and> \<not> startsWith h (lit ''mailto:'')
          then (case newURLWithBase api h baseUrl of
                  None \<Rightarrow> None
                | Some u \<Rightarrow> Some (lit ''['' @ cleanText (textContent e) @ lit '']('' @ href api u
                                   @ lit '')''))
          else Some (cleanText (textContent e)))"

definition image :: "'u url_api \<Rightarrow> jsstring \<Rightarrow> element \<Rightarrow> jsstring option" where
  \<comment> \<open>the case \<open>img\<close>; \<open>None\<close>: \<open>new URL(src, baseUrl)\<close> threw\<close>
  "image api baseUrl e =
     (let src = getAttribute (attributes e) (lit ''src'');
          alt = (case getAttribute (attributes e) (lit ''alt'') of
                   None \<Rightarrow> [] | Some a \<Rightarrow> a)
      in case src of
           None \<Rightarrow> Some []
         | Some s \<Rightarrow>
             if s = [] then Some []
             else (case newURLWithBase api s baseUrl of
                     None \<Rightarrow> None
                   | Some u \<Rightarrow> Some (lit ''!['' @ alt @ lit '']('' @ href api u @ lit '')'')))"

fun elementToMarkdown :: "'u url_api \<Rightarrow> jsstring \<Rightarrow> element \<Rightarrow> jsstring option"
and childNodesToMarkdown :: "'u url_api \<Rightarrow> jsstring \<Rightarrow> node list \<Rightarrow> jsstring option" where
  "elementToMarkdown api baseUrl (Element t a d v ns) =
     (let e = Element t a d v ns in
      if d = lit ''none'' \<or> v = lit ''hidden'' then Some []
      else if t \<in> set skipTags then Some []
      else if t = lit ''h1'' then Some (heading 1 e)
      else if t = lit ''h2'' then Some (heading 2 e)
      else if t = lit ''h3'' then Some (heading 3 e)
      else if t = lit ''h4'' then Some (heading 4 e)
      else if t = lit ''h5'' then Some (heading 5 e)
      else if t = lit ''h6'' then Some (heading 6 e)
      else if t = lit ''p'' then
        (let text = cleanText (textContent e) in Some (if text \<noteq> [] then text @ [10, 10] else []))
      else if t = lit ''ul'' then
        (let items = ulItems (children ns) in Some (if items \<noteq> [] then items @ [10] else []))
      else if t = lit ''ol'' then
        (let items = olItems (children ns) in Some (if items \<noteq> [] then items @ [10] else []))
      else if t = lit ''a'' then anchor api baseUrl e
      else if t = lit ''img'' then image api baseUrl e
      else if t = lit ''code'' \<or> t = lit ''pre'' then
        Some (lit ''```'' @ [10] @ textContent e @ [10] @ lit ''```'' @ [10, 10])
      else if t = lit ''blockquote'' then Some (blockquote e)
      else if t = lit ''hr'' then Some (lit ''---'' @ [10, 10])
      else if t = lit ''br'' then Some [10]
      else if t = lit ''table'' then Some tablePlaceholder
      else if t \<in> set containerTags then childNodesToMarkdown api baseUrl ns
      else if ns \<noteq> [] then childNodesToMarkdown api baseUrl ns
      else Some (cleanText (textContent e)))"
| "childNodesToMarkdown api baseUrl [] = Some []"
| "childNodesToMarkdown api baseUrl (ElementNode child # ns) =
     (case elementToMarkdown api baseUrl child of
        None \<Rightarrow> None
      | Some md \<Rightarrow> map_option ((@) md) (childNodesToMarkdown api baseUrl ns))"
| "childNodesToMarkdown api baseUrl (TextNode s # ns) =
     (let text = cleanText s
      in map_option ((@) (if text \<noteq> [] then text @ [32] else []))
                    (childNodesToMarkdown api baseUrl ns))"
| "childNodesToMarkdown api baseUrl (OtherNode # ns) = childNodesToMarkdown api baseUrl ns"

section \<open>Link harvesting\<close>

definition sameDomain :: "'u url_api \<Rightarrow> jsstring \<Rightarrow> jsstring \<Rightarrow> bool" where
  \<comment> \<open>the body of the \<open>try\<close> gives the result; any exception gives \<open>false\<close>\<close>
  "sameDomain api baseUrl urlStr =
     (if startsWith urlStr (lit ''/'') then True
      else (case newURL api baseUrl of
              None \<Rightarrow> False
            | Some base \<Rightarrow>
                (case newURLWithBase api urlStr baseUrl of
                   None \<Rightarrow> False
                 | Some url \<Rightarrow> hostname api url = hostname api base)))"

definition notScriptOrMail :: "jsstring \<Rightarrow> bool" where
  \<comment> \<open>\<open>href && !href.startsWith('javascript:') && !href.startsWith('mailto:')\<close>\<close>
  "notScriptOrMail h =
     (h \<noteq> [] \<and> \<not> startsWith h (lit ''javascript:'') \<and> \<not> startsWith h (lit ''mailto:''))"

definition extractLinks :: "'u url_api \<Rightarrow> jsstring \<Rightarrow> jsstring list \<Rightarrow> jsstring list" where
  \<comment> \<open>the function evaluated in the page; the argument list is \<open>a.href\<close> for every
      \<open>a[href]\<close> of the document, in document order\<close>
  "extractLinks api baseUrl hrefs = filter (sameDomain api baseUrl) (filter notScriptOrMail hrefs)"

definition setAdd :: "'a \<Rightarrow> 'a list \<Rightarrow> 'a list" where
  \<comment> \<open>\<open>Set.prototype.add\<close>: a JavaScript set keeps its elements in insertion order\<close>
  "setAdd x xs = (if x \<in> set xs then xs else xs @ [x])"

definition uniqueOf :: "'a list \<Rightarrow> 'a list" where
  \<comment> \<open>\<open>[...new Set(xs)]\<close>: the first occurrence of every element, in order\<close>
  "uniqueOf xs = foldl (\<lambda>acc x. setAdd x acc) [] xs"

section \<open>The crawl\<close>

text \<open>
  The run metadata, without its clock readings (\<open>startTime\<close>, \<open>endTime\<close>, \<open>duration\<close>).
\<close>

record run_metadata =
  startUrl :: jsstring
  maxDepthOf :: int
  pagesScraped :: nat
  markdownFiles :: nat

text \<open>
  What the browser and the file system answer for one page. The calls of one iteration
  that can throw for reasons outside the scraper are, in order: \<open>page.goto\<close>, the evaluation
  of the page metadata, \<open>extractContentAsMarkdown\<close>, \<open>fs.writeFileSync\<close>, \<open>page.screenshot\<close>
  and the evaluation of the links. \<open>failsAt\<close> names the first of them that throws, if any.
\<close>

datatype stage =
  Navigation | MetadataExtraction | ContentExtraction | DocumentWrite | Screenshot | LinkExtraction

record page_response =
  failsAt :: "stage option"
  pageTitle :: jsstring
  pageDescription :: jsstring
  pageDate :: jsstring
  mainElement :: element
  anchorHrefs :: "jsstring list"

record 'u environment =
  nodeURL :: "'u url_api"                        \<comment> \<open>the URL class of the Node process\<close>
  browserURL :: "'u url_api"                     \<comment> \<open>the URL class inside the page\<close>
  renderer :: "jsstring \<Rightarrow> page_response"          \<comment> \<open>the page served for an address\<close>

record crawl_state =
  metadata :: run_metadata
  visitedUrls :: "jsstring list"
  urlQueue :: "(jsstring \<times> nat) list"
  originalUrls :: "jsstring \<rightharpoonup> jsstring"
  processing :: "(jsstring \<times> nat) list"   \<comment> \<open>the entries handed to page processing, as logged\<close>
  documents :: "(jsstring \<times> jsstring) list" \<comment> \<open>the writes into the markdown directory\<close>
  screenshots :: "jsstring list"             \<comment> \<open>the names of the screenshots taken\<close>

definition initialState :: "jsstring \<Rightarrow> int \<Rightarrow> crawl_state" where
  \<comment> \<open>the state before the loop; \<open>targetUrl\<close> is already without its fragment\<close>
  "initialState targetUrl maxDepth =
     \<lparr> metadata = \<lparr> startUrl = targetUrl, maxDepthOf = maxDepth, pagesScraped = 0,
                    markdownFiles = 0 \<rparr>,
       visitedUrls = [],
       urlQueue = [(targetUrl, 0)],
       originalUrls = [targetUrl \<mapsto> targetUrl],
       processing = [],
       documents = [],
       screenshots = [] \<rparr>"

definition frontMatter :: "page_response \<Rightarrow> jsstring \<Rightarrow> jsstring \<Rightarrow> nat \<Rightarrow> jsstring" where
  "frontMatter page currentUrl normalizedUrl depth =
     lit ''---'' @ [10]
     @ lit ''title: \"'' @ pageTitle page @ lit ''\"'' @ [10]
     @ lit ''url: \"'' @ currentUrl @ lit ''\"'' @ [10]
     @ lit ''normalizedUrl: \"'' @ normalizedUrl @ lit ''\"'' @ [10]
     @ lit ''description: \"'' @ pageDescription page @ lit ''\"'' @ [10]
     @ lit ''date: \"'' @ pageDate page @ lit ''\"'' @ [10]
     @ lit ''depth: '' @ numberToString depth @ [10]
     @ lit ''---'' @ [10, 10]"

definition claim :: "jsstring \<Rightarrow> jsstring \<Rightarrow> nat \<Rightarrow> crawl_state \<Rightarrow> crawl_state" where
  \<comment> \<open>the statements between the two skip tests and \<open>browser.newPage()\<close>\<close>
  "claim currentUrl normalizedUrl depth s =
     s\<lparr> processing := processing s @ [(currentUrl, depth)],
        visitedUrls := setAdd normalizedUrl (visitedUrls s),
        originalUrls := (originalUrls s)(normalizedUrl \<mapsto> currentUrl),
        metadata := (metadata s)\<lparr> pagesScraped := pagesScraped (metadata s) + 1 \<rparr> \<rparr>"

definition processPage ::
  "'u environment \<Rightarrow> int \<Rightarrow> jsstring \<Rightarrow> jsstring \<Rightarrow> nat \<Rightarrow> crawl_state \<Rightarrow> crawl_state" where
  \<comment> \<open>the inner \<open>try\<close> with its \<open>catch\<close>: an exception ends the processing of the page and
      keeps what was done before it\<close>
  "processPage env maxDepth currentUrl normalizedUrl depth s =
     (let page = renderer env currentUrl in
      if failsAt page = Some Navigation then s
      else if failsAt page = Some MetadataExtraction then s
      else if failsAt page = Some ContentExtraction then s
      else (case elementToMarkdown (browserURL env) currentUrl (mainElement page) of
        None \<Rightarrow> s
      | Some markdown \<Rightarrow>
      (case pageFileName (nodeURL env) normalizedUrl of
        None \<Rightarrow> s
      | Some fileName \<Rightarrow>
      if failsAt page = Some DocumentWrite then s
      else
        (let s1 = s\<lparr> documents := documents s
                         @ [(fileName, frontMatter page currentUrl normalizedUrl depth @ markdown)],
                      metadata := (metadata s)\<lparr> markdownFiles := markdownFiles (metadata s) + 1 \<rparr> \<rparr>
         in
         if failsAt page = Some Screenshot then s1
         else
           (let s2 = s1\<lparr> screenshots := screenshots s1 @ [screenshotName fileName] \<rparr> in
            if int depth < maxDepth then
              (if failsAt page = Some LinkExtraction then s2
               else
                 (let links = extractLinks (browserURL env) currentUrl (anchorHrefs page);
                      uniqueLinks = uniqueOf links
                  in s2\<lparr> urlQueue := urlQueue s2
                            @ map (\<lambda>link. (link, depth + 1))
                                (filter (\<lambda>link. removeFragment (nodeURL env) link
                                                 \<notin> set (visitedUrls s2))
                                        uniqueLinks) \<rparr>))
            else s2)))))"

definition step :: "'u environment \<Rightarrow> int \<Rightarrow> crawl_state \<Rightarrow> crawl_state" where
  \<comment> \<open>one iteration of the \<open>while\<close> loop\<close>
  "step env maxDepth s =
     (case urlQueue s of
        [] \<Rightarrow> s
      | (currentUrl, depth) # rest \<Rightarrow>
          (let s0 = s\<lparr> urlQueue := rest \<rparr>;
               normalizedUrl = removeFragment (nodeURL env) currentUrl
           in if normalizedUrl \<in> set (visitedUrls s0) then s0
              else if int depth > maxDepth then s0
              else processPage env maxDepth currentUrl normalizedUrl depth
                     (claim currentUrl normalizedUrl depth s0)))"

text \<open>
  The states of a run: the state before the loop, the state after every iteration, and
  the state inside an iteration after the entry has been claimed and before its page is
  processed. The run metadata changes nowhere else. Failures outside the inner \<open>try\<close>
  (launching the browser, opening a page, creating the directories) end the run at the
  state reached and are not modelled. \<open>maxDepth\<close> is an integer, as \<open>parseInt\<close> gives it.
\<close>

inductive reachable :: "'u environment \<Rightarrow> int \<Rightarrow> jsstring \<Rightarrow> crawl_state \<Rightarrow> bool"
  for env :: "'u environment" and maxDepth :: int and targetUrl :: jsstring where
  start: "reachable env maxDepth targetUrl
            (initialState (removeFragment (nodeURL env) targetUrl) maxDepth)"
| iteration: "reachable env maxDepth targetUrl s \<Longrightarrow> urlQueue s \<noteq> []
              \<Longrightarrow> reachable env maxDepth targetUrl (step env maxDepth s)"
| claimed: "reachable env maxDepth targetUrl s \<Longrightarrow> urlQueue s = (currentUrl, depth) # rest
            \<Longrightarrow> removeFragment (nodeURL env) currentUrl \<notin> set (visitedUrls s)
            \<Longrightarrow> \<not> int depth > maxDepth
            \<Longrightarrow> reachable env maxDepth targetUrl
                  (claim currentUrl (removeFragment (nodeURL env) currentUrl) depth
                     (s\<lparr> urlQueue := rest \<rparr>))"

definition logged :: "'u environment \<Rightarrow> crawl_state \<Rightarrow> jsstring list" where
  \<comment> \<open>the normalized addresses of the entries handed to page processing, in order\<close>
  "logged env s = map (\<lambda>e. removeFragment (nodeURL env) (fst e)) (processing s)"


definition weight :: "int \<Rightarrow> jsstring \<times> nat \<Rightarrow> nat" where
  \<comment> \<open>how many levels below a frontier entry can still be enqueued\<close>
  "weight maxDepth e = nat (maxDepth + 1 - int (snd e))"

function crawlLoop :: "'u environment \<Rightarrow> int \<Rightarrow> crawl_state \<Rightarrow> crawl_state" where
  \<comment> \<open>\<open>while (urlQueue.length > 0) { ... }\<close>\<close>
  "crawlLoop env maxDepth s =
     (if urlQueue s = [] then s else crawlLoop env maxDepth (step env maxDepth s))"
  by pat_completeness auto

section \<open>The index\<close>

fun indexEntries :: "'u url_api \<Rightarrow> (jsstring \<rightharpoonup> jsstring) \<Rightarrow> jsstring list \<Rightarrow> jsstring option" where
  \<comment> \<open>the \<open>for\<close> loop of createIndexMarkdown; \<open>None\<close>: \<open>new URL(normalizedUrl)\<close> threw\<close>
  "indexEntries api originals [] = Some []"
| "indexEntries api originals (normalizedUrl # urls) =
     (let originalUrl = (case originals normalizedUrl of
                           None \<Rightarrow> normalizedUrl
                         | Some orig \<Rightarrow> if orig = [] then normalizedUrl else orig)
      in case indexFileName api normalizedUrl of
           None \<Rightarrow> None
         | Some fileName \<Rightarrow>
             map_option ((@) (lit ''- ['' @ originalUrl @ lit ''](./'' @ fileName @ lit '')'' @ [10]))
                        (indexEntries api originals urls))"

definition createIndexMarkdown ::
  "'u url_api \<Rightarrow> jsstring list \<Rightarrow> (jsstring \<rightharpoonup> jsstring) \<Rightarrow> jsstring option" where
  \<comment> \<open>the list of pages of the index document, after its fixed header; the addresses are
      sorted by code units, as \<open>Array.prototype.sort\<close> does without a comparator\<close>
  "createIndexMarkdown api visited originals = indexEntries api originals (sort visited)"

record run_result =
  finalState :: crawl_state
  indexPages :: "jsstring option"              \<comment> \<open>\<open>None\<close>: createIndexMarkdown threw\<close>
  metadataJson :: "run_metadata option"        \<comment> \<open>what is written to \<open>metadata.json\<close>, if anything\<close>

definition scrapeToMarkdown :: "'u environment \<Rightarrow> jsstring \<Rightarrow> int \<Rightarrow> run_result" where
  "scrapeToMarkdown env targetUrl maxDepth =
     (let targetUrl = removeFragment (nodeURL env) targetUrl;
          s = crawlLoop env maxDepth (initialState targetUrl maxDepth);
          index = createIndexMarkdown (nodeURL env) (visitedUrls s) (originalUrls s)
      in \<lparr> finalState = s,
           indexPages = index,
           metadataJson = (case index of None \<Rightarrow> None | Some _ \<Rightarrow> Some (metadata s)) \<rparr>)"

section \<open>The base name as the specification words it\<close>


section \<open>A small URL class and a small site, for concrete runs\<close>

text \<open>
  A URL class for addresses of the form \<open>scheme://host/path#fragment\<close>, and a site of three
  pages served by a fake renderer. They stand in for the platform where a theorem is
  applied to a concrete run.
\<close>

record mini_url =
  mscheme :: jsstring
  mhost :: jsstring
  mpath :: jsstring
  mhash :: jsstring

definition miniParse :: "jsstring \<Rightarrow> mini_url option" where
  "miniParse s =
     (let body = takeWhile (\<lambda>c. c \<noteq> 35) s;
          frag = drop 1 (dropWhile (\<lambda>c. c \<noteq> 35) s);
          scheme = takeWhile (\<lambda>c. c \<noteq> 58) body;
          after = dropWhile (\<lambda>c. c \<noteq> 58) body;
          rest = drop 3 after;
          host = takeWhile (\<lambda>c. c \<noteq> 47) rest;
          path = dropWhile (\<lambda>c. c \<noteq> 47) rest
      in if scheme \<noteq> [] \<and> startsWith after (lit ''://'') \<and> host \<noteq> []
         then Some \<lparr> mscheme = scheme, mhost = host,
                     mpath = (if path = [] then lit ''/'' else path), mhash = frag \<rparr>
         else None)"

definition miniResolve :: "jsstring \<Rightarrow> jsstring \<Rightarrow> mini_url option" where
  "miniResolve s base =
     (case miniParse base of
        None \<Rightarrow> None
      | Some b \<Rightarrow>
          (case miniParse s of
             Some u \<Rightarrow> Some u
           | None \<Rightarrow>
               if startsWith s (lit ''/'')
               then Some (b\<lparr> mpath := takeWhile (\<lambda>c. c \<noteq> 35) s,
                             mhash := drop 1 (dropWhile (\<lambda>c. c \<noteq> 35) s) \<rparr>)
               else None))"

definition miniHref :: "mini_url \<Rightarrow> jsstring" where
  "miniHref u =
     mscheme u @ lit ''://'' @ mhost u @ mpath u @ (if mhash u = [] then [] else 35 # mhash u)"

definition miniURL :: "mini_url url_api" where
  "miniURL = \<lparr> newURL = miniParse, newURLWithBase = miniResolve,
               clearHash = (\<lambda>u. u\<lparr> mhash := [] \<rparr>), href = miniHref,
               pathname = mpath, hostname = mhost \<rparr>"

definition plainElement :: "string \<Rightarrow> node list \<Rightarrow> element" where
  \<comment> \<open>a displayed element without attributes\<close>
  "plainElement t ns = Element (lit t) [] (lit ''block'') (lit ''visible'') ns"

definition homePage :: page_response where
  "homePage = \<lparr> failsAt = None, pageTitle = lit ''Home'', pageDescription = [],
                pageDate = lit ''2024-01-01T00:00:00.000Z'',
                mainElement = plainElement ''main''
                  [ElementNode (plainElement ''h1'' [TextNode (lit ''Home'')])],
                anchorHrefs = [lit ''https://example.com/a.md/b'',
                               lit ''https://example.com/#top'',
                               lit ''https://other.org/'',
                               lit ''mailto:me@example.com'',
                               lit ''https://example.com/a.md/b''] \<rparr>"

definition notesPage :: page_response where
  "notesPage = \<lparr> failsAt = None, pageTitle = lit ''Notes'', pageDescription = [],
                 pageDate = lit ''2024-01-01T00:00:01.000Z'',
                 mainElement = plainElement ''main'' [TextNode (lit ''notes'')],
                 anchorHrefs = [lit ''https://example.com/'', lit ''https://example.com/deeper''] \<rparr>"

definition brokenPage :: page_response where
  \<comment> \<open>a page whose navigation fails\<close>
  "brokenPage = \<lparr> failsAt = Some Navigation, pageTitle = [], pageDescription = [],
                  pageDate = [], mainElement = plainElement ''body'' [], anchorHrefs = [] \<rparr>"

definition miniSite :: "mini_url environment" where
  "miniSite = \<lparr> nodeURL = miniURL, browserURL = miniURL,
                renderer = (\<lambda>address.
                  if address = lit ''https://example.com/'' then homePage
                  else if address = lit ''https://example.com/a.md/b'' then notesPage
                  else brokenPage) \<rparr>"

definition demoStart :: crawl_state where
  \<comment> \<open>the state before the loop for the target \<open>https://example.com/#start\<close> and depth 1\<close>
  "demoStart =
     initialState (removeFragment (nodeURL miniSite) (lit ''https://example.com/#start'')) 1"

definition demoAfterHome :: crawl_state where
  "demoAfterHome = step miniSite 1 demoStart"

definition demoAfterNotes :: crawl_state where
  "demoAfterNotes = step miniSite 1 demoAfterHome"

definition brokenStart :: crawl_state where
  \<comment> \<open>the state before the loop for a target whose navigation fails\<close>
  "brokenStart = initialState (lit ''https://example.com/missing'') 1"

section \<open>The loop terminates\<close>

lemma processPage_queue:
  "\<exists>kids. urlQueue (processPage env m u n d s) = urlQueue s @ kids
        \<and> (kids \<noteq> [] \<longrightarrow> int d < m) \<and> (\<forall>k\<in>set kids. snd k = d + 1)"
  by (auto simp: processPage_def Let_def split: option.splits)

lemma step_queue:
  assumes "urlQueue s = (u, d) # rest"
  shows "\<exists>kids. urlQueue (step env m s) = rest @ kids
        \<and> (kids \<noteq> [] \<longrightarrow> int d < m) \<and> (\<forall>k\<in>set kids. snd k = d + 1)"
proof (cases "removeFragment (nodeURL env) u \<in> set (visitedUrls s) \<or> int d > m")
  case True
  then show ?thesis using assms by (auto simp: step_def Let_def)
next
  case False
  let ?n = "removeFragment (nodeURL env) u"
  have "step env m s = processPage env m u ?n d (claim u ?n d (s\<lparr>urlQueue := rest\<rparr>))"
    using False assms by (auto simp: step_def Let_def)
  moreover have "urlQueue (claim u ?n d (s\<lparr>urlQueue := rest\<rparr>)) = rest"
    by (simp add: claim_def)
  ultimately show ?thesis
    using processPage_queue[of env m u ?n d "claim u ?n d (s\<lparr>urlQueue := rest\<rparr>)"] by simp
qed

lemma step_decreases:
  assumes "urlQueue s \<noteq> []"
  shows "(mset (map (weight m) (urlQueue (step env m s))), mset (map (weight m) (urlQueue s)))
           \<in> mult {(a, b). a < b}"
proof -
  obtain u d rest where q: "urlQueue s = (u, d) # rest"
    using assms by (cases "urlQueue s") auto
  obtain kids where k: "urlQueue (step env m s) = rest @ kids"
    "kids \<noteq> [] \<longrightarrow> int d < m" "\<forall>k\<in>set kids. snd k = d + 1"
    using step_queue[OF q, of env m] by blast
  have "\<forall>x\<in>#mset (map (weight m) kids). \<exists>j\<in>#{#weight m (u, d)#}. (x, j) \<in> {(a, b). a < b}"
    using k(2,3) by (auto simp: weight_def)
  then have "(mset (map (weight m) rest) + mset (map (weight m) kids),
         mset (map (weight m) rest) + {#weight m (u, d)#}) \<in> mult {(a, b). a < b}"
    by (intro one_step_implies_mult) auto
  then show ?thesis by (simp add: q k(1))
qed

termination crawlLoop
proof (relation "inv_image (mult {(a, b). a < b})
                   (\<lambda>(env, m, s). mset (map (weight m) (urlQueue s)))")
  show "wf (inv_image (mult {(a::nat, b). a < b})
             (\<lambda>(env::'u environment, m, s). mset (map (weight m) (urlQueue s))))"
    using wf_less
    by (intro wf_inv_image wf_mult) (simp add: wf_def[symmetric] less_than_def[symmetric])
next
  fix env :: "'u environment" and maxDepth :: int and s :: crawl_state
  assume "urlQueue s \<noteq> []"
  then show "((env, maxDepth, step env maxDepth s), env, maxDepth, s)
         \<in> inv_image (mult {(a, b). a < b}) (\<lambda>(env, m, s). mset (map (weight m) (urlQueue s)))"
    using step_decreases[of s maxDepth env] by simp
qed

declare crawlLoop.simps [simp del]

section \<open>Invariants of the crawl\<close>

lemma step_unfold:
  assumes "urlQueue s = (u, d) # rest"
  shows "step env m s =
          (if removeFragment (nodeURL env) u \<in> set (visitedUrls s) \<or> int d > m
           then s\<lparr> urlQueue := rest \<rparr>
           else processPage env m u (removeFragment (nodeURL env) u) d
                  (claim u (removeFragment (nodeURL env) u) d (s\<lparr> urlQueue := rest \<rparr>)))"
  using assms by (simp add: step_def Let_def)

lemma processPage_visitedUrls: "visitedUrls (processPage env m u n d s) = visitedUrls s"
  by (simp add: processPage_def Let_def split: option.splits)

lemma processPage_processing: "processing (processPage env m u n d s) = processing s"
  by (simp add: processPage_def Let_def split: option.splits)

lemma processPage_pagesScraped:
  "pagesScraped (metadata (processPage env m u n d s)) = pagesScraped (metadata s)"
  by (simp add: processPage_def Let_def split: option.splits)

lemma processPage_markdownFiles:
  "markdownFiles (metadata (processPage env m u n d s)) \<le> markdownFiles (metadata s) + 1"
  by (simp add: processPage_def Let_def split: option.splits)

lemma processPage_fails_early:
  assumes "failsAt (renderer env u) \<in> {Some Navigation, Some MetadataExtraction, Some ContentExtraction}
           \<or> elementToMarkdown (browserURL env) u (mainElement (renderer env u)) = None"
  shows "processPage env m u n d s = s"
  using assms by (auto simp: processPage_def Let_def split: option.splits)



lemma step_skip:
  assumes "urlQueue s = (u, d) # rest"
    and "removeFragment (nodeURL env) u \<in> set (visitedUrls s) \<or> int d > m"
  shows "step env m s = s\<lparr> urlQueue := rest \<rparr>"
  using assms by (simp add: step_unfold)

lemma step_process:
  assumes "urlQueue s = (u, d) # rest"
    and "\<not> (removeFragment (nodeURL env) u \<in> set (visitedUrls s) \<or> int d > m)"
  shows "step env m s = processPage env m u (removeFragment (nodeURL env) u) d
                  (claim u (removeFragment (nodeURL env) u) d (s\<lparr> urlQueue := rest \<rparr>))"
  using assms by (simp add: step_unfold)

lemma claim_logged:
  assumes "logged env s = visitedUrls s \<and> distinct (visitedUrls s)"
    and "removeFragment (nodeURL env) u \<notin> set (visitedUrls s)"
  shows "logged env (claim u (removeFragment (nodeURL env) u) d (s\<lparr> urlQueue := rest \<rparr>))
           = visitedUrls (claim u (removeFragment (nodeURL env) u) d (s\<lparr> urlQueue := rest \<rparr>))
         \<and> distinct (visitedUrls (claim u (removeFragment (nodeURL env) u) d (s\<lparr> urlQueue := rest \<rparr>)))"
  using assms by (simp add: logged_def claim_def setAdd_def)

lemma processPage_logged:
  "logged env (processPage env m u n d s) = logged env s"
  by (simp add: logged_def processPage_processing)

lemma reachable_visited:
  assumes "reachable env m t s"
  shows "logged env s = visitedUrls s \<and> distinct (visitedUrls s)"
  using assms
proof (induction rule: reachable.induct)
  case start
  then show ?case by (simp add: initialState_def logged_def)
next
  case (iteration s)
  then obtain u d rest where q: "urlQueue s = (u, d) # rest"
    by (cases "urlQueue s") auto
  show ?case
  proof (cases "removeFragment (nodeURL env) u \<in> set (visitedUrls s) \<or> int d > m")
    case True
    then show ?thesis using iteration.IH by (simp add: step_skip [OF q] logged_def)
  next
    case False
    then have "removeFragment (nodeURL env) u \<notin> set (visitedUrls s)" by simp
    from claim_logged [OF iteration.IH this, of d rest] show ?thesis
      by (simp add: step_process [OF q False] processPage_logged processPage_visitedUrls)
  qed
next
  case (claimed s currentUrl depth rest)
  then show ?case using claim_logged by blast
qed


lemma reachable_depths:
  assumes "reachable env m t s"
  shows "(\<forall>e\<in>set (processing s). int (snd e) \<le> m)
         \<and> (\<forall>e\<in>set (urlQueue s). snd e = 0 \<or> int (snd e) \<le> m)"
  using assms
proof (induction rule: reachable.induct)
  case start
  then show ?case by (simp add: initialState_def)
next
  case (iteration s)
  then obtain u d rest where q: "urlQueue s = (u, d) # rest"
    by (cases "urlQueue s") auto
  obtain kids where k: "urlQueue (step env m s) = rest @ kids"
    "kids \<noteq> [] \<longrightarrow> int d < m" "\<forall>k\<in>set kids. snd k = d + 1"
    using step_queue [OF q, of env m] by blast
  have "\<forall>e\<in>set (processing (step env m s)). int (snd e) \<le> m"
  proof (cases "removeFragment (nodeURL env) u \<in> set (visitedUrls s) \<or> int d > m")
    case True
    then show ?thesis using iteration.IH by (simp add: step_skip [OF q])
  next
    case False
    then show ?thesis using iteration.IH
      by (simp add: step_process [OF q False] processPage_processing claim_def)
  qed
  moreover have "\<forall>e\<in>set (urlQueue (step env m s)). snd e = 0 \<or> int (snd e) \<le> m"
  proof (cases "kids = []")
    case True
    then show ?thesis using iteration.IH q k(1) by simp
  next
    case False
    then have "int d < m" using k(2) by simp
    then have "\<forall>e\<in>set kids. int (snd e) \<le> m" using k(3) by simp
    then show ?thesis using iteration.IH q k(1) by auto
  qed
  ultimately show ?case by blast
next
  case (claimed s currentUrl depth rest)
  then show ?case by (simp add: claim_def)
qed

lemma reachable_counters:
  assumes "reachable env m t s"
  shows "markdownFiles (metadata s) \<le> pagesScraped (metadata s)"
  using assms
proof (induction rule: reachable.induct)
  case start
  then show ?case by (simp add: initialState_def)
next
  case (iteration s)
  then obtain u d rest where q: "urlQueue s = (u, d) # rest"
    by (cases "urlQueue s") auto
  let ?n = "removeFragment (nodeURL env) u"
  let ?c = "claim u ?n d (s\<lparr> urlQueue := rest \<rparr>)"
  have c: "markdownFiles (metadata ?c) = markdownFiles (metadata s)"
    "pagesScraped (metadata ?c) = pagesScraped (metadata s) + 1"
    by (simp_all add: claim_def)
  show ?case
  proof (cases "?n \<in> set (visitedUrls s) \<or> int d > m")
    case True
    then show ?thesis using iteration.IH by (simp add: step_skip [OF q])
  next
    case False
    show ?thesis
      using iteration.IH processPage_markdownFiles [of env m u ?n d ?c] c
      by (simp add: step_process [OF q False] processPage_pagesScraped)
  qed
next
  case (claimed s currentUrl depth rest)
  then show ?case by (simp add: claim_def)
qed

lemma crawlLoop_reachable:
  "reachable env m t s \<Longrightarrow> reachable env m t (crawlLoop env m s)"
proof (induction env m s rule: crawlLoop.induct)
  case (1 env maxDepth s)
  show ?case
  proof (cases "urlQueue s = []")
    case True
    then show ?thesis using "1.prems" by (subst crawlLoop.simps) simp
  next
    case False
    have "reachable env maxDepth t (step env maxDepth s)"
      using "1.prems" False by (rule reachable.iteration)
    then have "reachable env maxDepth t (crawlLoop env maxDepth (step env maxDepth s))"
      using "1.IH" False by blast
    then show ?thesis using False by (subst crawlLoop.simps) simp
  qed
qed

lemma crawlLoop_empties: "urlQueue (crawlLoop env m s) = []"
proof (induction env m s rule: crawlLoop.induct)
  case (1 env maxDepth s)
  then show ?case by (subst crawlLoop.simps) simp
qed

section \<open>File names: the index and the page pipeline agree\<close>




section \<open>The screenshot name\<close>

text \<open>
  C6. The screenshot is to carry the base name of the page document with the suffix
  \<open>.md\<close> replaced by \<open>.png\<close>. For the address \<open>https://example.com/a.md/b\<close> the document is
  named \<open>a.md_b.md\<close>, and the screenshot is named \<open>a.png_b.md\<close>: the first \<open>.md\<close> is
  replaced, not the suffix.
\<close>

theorem screenshot_name_replaces_first_md:
  "pageFileName miniURL (lit ''https://example.com/a.md/b'') = Some (lit ''a.md_b.md'')
   \<and> screenshotName (lit ''a.md_b.md'') = lit ''a.png_b.md''
   \<and> screenshotName (lit ''a.md_b.md'') \<noteq> lit ''a.md_b.png''"
  by (simp add: pageFileName_def miniURL_def miniParse_def lit_def startsWith_def endsWith_def
      stripLeadingUnit_def replaceAllUnit_def screenshotName_def Let_def)

section \<open>Ordered lists\<close>

text \<open>
  C5. The items of an ordered list are to be numbered 1, 2, ... among the list items. For
  an \<open>ol\<close> whose element children are \<open>li\<close> "A", a \<open>script\<close> element and \<open>li\<close> "B", the
  extractor writes \<open>1. A\<close> and \<open>3. B\<close>: the number is the position among all element
  children.
\<close>

theorem ordered_list_numbers_by_child_position:
  "elementToMarkdown api baseUrl
     (plainElement ''ol''
        [ElementNode (plainElement ''li'' [TextNode (lit ''A'')]),
         ElementNode (plainElement ''script'' []),
         ElementNode (plainElement ''li'' [TextNode (lit ''B'')])])
   = Some (lit ''1. A'' @ [10] @ lit ''3. B'' @ [10, 10])
   \<and> lit ''1. A'' @ [10] @ lit ''3. B'' @ [10, 10] \<noteq> lit ''1. A'' @ [10] @ lit ''2. B'' @ [10, 10]"
  by (simp add: plainElement_def lit_def skipTags_def olItems_def cleanText_def trim_def
      isWhiteSpace_def numberToString_def enumerate_eq_zip)

section \<open>Text cleaning and block quotes\<close>

lemma replaceRuns_members:
  "c \<in> set (replaceRuns p r xs) \<Longrightarrow> c \<in> set r \<or> (c \<in> set xs \<and> \<not> p c)"
  by (induction p r xs rule: replaceRuns.induct) (auto split: if_splits)

lemma replaceRuns_unchanged:
  "\<forall>c\<in>set xs. \<not> p c \<Longrightarrow> replaceRuns p r xs = xs"
  by (induction p r xs rule: replaceRuns.induct) auto

lemma whitespace_collapsed_no_newline:
  "10 \<notin> set (replaceRuns isWhiteSpace [32] xs)"
proof
  assume "10 \<in> set (replaceRuns isWhiteSpace [32] xs)"
  then have "(10::16 word) \<in> set [32] \<or> \<not> isWhiteSpace 10"
    using replaceRuns_members by blast
  then show False by (simp add: isWhiteSpace_def)
qed

lemma cleanText_collapse:
  "cleanText text = (if text = [] then [] else replaceRuns isWhiteSpace [32] (trim text))"
proof -
  have "replaceRuns (\<lambda>c. c = 10) [10] (replaceRuns isWhiteSpace [32] (trim text))
          = replaceRuns isWhiteSpace [32] (trim text)"
    by (rule replaceRuns_unchanged) (use whitespace_collapsed_no_newline in blast)
  then show ?thesis by (simp add: cleanText_def)
qed

lemma cleanText_no_newline: "10 \<notin> set (cleanText text)"
  using whitespace_collapsed_no_newline by (simp add: cleanText_collapse)

lemma splitOn_without_separator: "c \<notin> set xs \<Longrightarrow> splitOn c xs = [xs]"
  by (induction xs) auto

lemma blockquote_one_line:
  "blockquote e = lit ''> '' @ cleanText (textContent e) @ [10, 10]"
  by (simp add: blockquote_def Let_def splitOn_without_separator cleanText_no_newline)

lemma blockquote_not_skipped: "lit ''blockquote'' \<notin> set skipTags"
  by (simp add: skipTags_def lit_def)

lemma blockquote_case:
  assumes "d \<noteq> lit ''none''" "v \<noteq> lit ''hidden''"
  shows "elementToMarkdown api baseUrl (Element (lit ''blockquote'') a d v ns)
          = Some (blockquote (Element (lit ''blockquote'') a d v ns))"
proof -
  have ne: "lit ''blockquote'' \<noteq> lit ''h1''" "lit ''blockquote'' \<noteq> lit ''h2''"
    "lit ''blockquote'' \<noteq> lit ''h3''" "lit ''blockquote'' \<noteq> lit ''h4''"
    "lit ''blockquote'' \<noteq> lit ''h5''" "lit ''blockquote'' \<noteq> lit ''h6''"
    "lit ''blockquote'' \<noteq> lit ''p''" "lit ''blockquote'' \<noteq> lit ''ul''"
    "lit ''blockquote'' \<noteq> lit ''ol''" "lit ''blockquote'' \<noteq> lit ''a''"
    "lit ''blockquote'' \<noteq> lit ''img''" "lit ''blockquote'' \<noteq> lit ''code''"
    "lit ''blockquote'' \<noteq> lit ''pre''"
    by (simp_all add: lit_def)
  show ?thesis
    using assms blockquote_not_skipped ne by (simp add: Let_def)
qed

section \<open>The small URL class reparses what it serialises\<close>

lemma miniParse_Some:
  assumes "miniParse s = Some u"
  shows "u = \<lparr> mscheme = takeWhile (\<lambda>c. c \<noteq> 58) (takeWhile (\<lambda>c. c \<noteq> 35) s),
               mhost = takeWhile (\<lambda>c. c \<noteq> 47) (drop 3 (dropWhile (\<lambda>c. c \<noteq> 58) (takeWhile (\<lambda>c. c \<noteq> 35) s))),
               mpath = (if dropWhile (\<lambda>c. c \<noteq> 47) (drop 3 (dropWhile (\<lambda>c. c \<noteq> 58) (takeWhile (\<lambda>c. c \<noteq> 35) s))) = [] then lit ''/''
                        else dropWhile (\<lambda>c. c \<noteq> 47) (drop 3 (dropWhile (\<lambda>c. c \<noteq> 58) (takeWhile (\<lambda>c. c \<noteq> 35) s)))),
               mhash = drop 1 (dropWhile (\<lambda>c. c \<noteq> 35) s) \<rparr>
         \<and> mscheme u \<noteq> [] \<and> mhost u \<noteq> []"
proof (cases "takeWhile (\<lambda>c. c \<noteq> 58) (takeWhile (\<lambda>c. c \<noteq> 35) s) \<noteq> []
      \<and> startsWith (dropWhile (\<lambda>c. c \<noteq> 58) (takeWhile (\<lambda>c. c \<noteq> 35) s)) (lit ''://'')
      \<and> takeWhile (\<lambda>c. c \<noteq> 47) (drop 3 (dropWhile (\<lambda>c. c \<noteq> 58) (takeWhile (\<lambda>c. c \<noteq> 35) s))) \<noteq> []")
  case True
  then show ?thesis using assms unfolding miniParse_def Let_def by (simp only: if_True option.inject) auto
next
  case False
  then have "miniParse s = None" unfolding miniParse_def Let_def by (simp only: if_False)
  then show ?thesis using assms by simp
qed


lemma miniParse_shape:
  assumes "miniParse s = Some u"
  shows "mscheme u \<noteq> [] \<and> 58 \<notin> set (mscheme u) \<and> 35 \<notin> set (mscheme u)
         \<and> mhost u \<noteq> [] \<and> 47 \<notin> set (mhost u) \<and> 35 \<notin> set (mhost u)
         \<and> (\<exists>p. mpath u = 47 # p \<and> 35 \<notin> set p)"
proof -
  define body where "body = takeWhile (\<lambda>c. c \<noteq> 35) s"
  define after where "after = dropWhile (\<lambda>c. c \<noteq> 58) body"
  define rest where "rest = drop 3 after"
  define path where "path = dropWhile (\<lambda>c. c \<noteq> 47) rest"
  have ueq: "u = \<lparr> mscheme = takeWhile (\<lambda>c. c \<noteq> 58) body,
               mhost = takeWhile (\<lambda>c. c \<noteq> 47) rest,
               mpath = (if path = [] then lit ''/'' else path),
               mhash = drop 1 (dropWhile (\<lambda>c. c \<noteq> 35) s) \<rparr>"
    and ne: "mscheme u \<noteq> []" "mhost u \<noteq> []"
    using miniParse_Some [OF assms] unfolding body_def after_def rest_def path_def by blast+
  have u: "mscheme u = takeWhile (\<lambda>c. c \<noteq> 58) body" "mhost u = takeWhile (\<lambda>c. c \<noteq> 47) rest"
    "mpath u = (if path = [] then lit ''/'' else path)"
    by (subst ueq, simp)+
  have b: "35 \<notin> set body" unfolding body_def by (auto dest: set_takeWhileD)
  then have a: "35 \<notin> set after" unfolding after_def by (auto dest: set_dropWhileD)
  then have r: "35 \<notin> set rest" unfolding rest_def by (auto dest: in_set_dropD)
  then have p: "35 \<notin> set path" unfolding path_def by (auto dest: set_dropWhileD)
  have s1: "58 \<notin> set (mscheme u)" unfolding u(1) by (auto dest: set_takeWhileD)
  have s2: "35 \<notin> set (mscheme u)" unfolding u(1) using b by (auto dest: set_takeWhileD)
  have h1: "47 \<notin> set (mhost u)" unfolding u(2) by (auto dest: set_takeWhileD)
  have h2: "35 \<notin> set (mhost u)" unfolding u(2) using r by (auto dest: set_takeWhileD)
  have pp: "\<exists>q. mpath u = 47 # q \<and> 35 \<notin> set q"
  proof (cases "path = []")
    case True
    then show ?thesis unfolding u(3) by (simp add: lit_def)
  next
    case False
    have "\<not> (hd path \<noteq> 47)" unfolding path_def using False [unfolded path_def]
      by (rule hd_dropWhile)
    then have "path = 47 # tl path" using False by (cases path) auto
    moreover have "35 \<notin> set (tl path)" using p False by (cases path) auto
    ultimately show ?thesis unfolding u(3) using False by auto
  qed
  show ?thesis using ne s1 s2 h1 h2 pp by blast
qed


lemma miniParse_reparse:
  assumes "miniParse s = Some u"
  shows "miniParse (miniHref (u\<lparr> mhash := [] \<rparr>)) = Some (u\<lparr> mhash := [] \<rparr>)"
proof -
  obtain p where sh: "mscheme u \<noteq> []" "58 \<notin> set (mscheme u)" "35 \<notin> set (mscheme u)"
    "mhost u \<noteq> []" "47 \<notin> set (mhost u)" "35 \<notin> set (mhost u)" "mpath u = 47 # p" "35 \<notin> set p"
    using miniParse_shape [OF assms] by blast
  let ?h = "mscheme u @ 58 # 47 # 47 # mhost u @ 47 # p"
  have h: "miniHref (u\<lparr> mhash := [] \<rparr>) = ?h"
    by (simp add: miniHref_def lit_def sh(7))
  have no: "\<forall>c\<in>set ?h. c \<noteq> 35" using sh(3,6,8) by auto
  have t1: "takeWhile (\<lambda>c. c \<noteq> 35) ?h = ?h"
    using no by (simp only: takeWhile_eq_all_conv)
  have t2: "dropWhile (\<lambda>c. c \<noteq> 35) ?h = []"
    using no by (simp only: dropWhile_eq_Nil_conv)
  have t3: "takeWhile (\<lambda>c. c \<noteq> 58) ?h = mscheme u"
    using sh(2) by (subst takeWhile_append2) auto
  have t4: "dropWhile (\<lambda>c. c \<noteq> 58) ?h = 58 # 47 # 47 # mhost u @ 47 # p"
    using sh(2) by (subst dropWhile_append2) auto
  have t5: "takeWhile (\<lambda>c. c \<noteq> 47) (mhost u @ 47 # p) = mhost u"
    using sh(5) by (subst takeWhile_append2) auto
  have t6: "dropWhile (\<lambda>c. c \<noteq> 47) (mhost u @ 47 # p) = 47 # p"
    using sh(5) by (subst dropWhile_append2) auto
  have st: "startsWith (58 # 47 # 47 # mhost u @ 47 # p) (lit ''://'')"
    by (simp add: startsWith_def lit_def)
  have d3: "drop 3 (58 # 47 # 47 # mhost u @ 47 # p) = mhost u @ 47 # p"
    by simp
  have "miniParse ?h = Some \<lparr> mscheme = mscheme u, mhost = mhost u, mpath = 47 # p, mhash = [] \<rparr>"
    unfolding miniParse_def Let_def t1 t2 t3 t4 d3 t5 t6 using sh(1,4) st by simp
  moreover have "u\<lparr> mhash := [] \<rparr> = \<lparr> mscheme = mscheme u, mhost = mhost u, mpath = 47 # p, mhash = [] \<rparr>"
    using sh(7) by (cases u) simp
  ultimately show ?thesis unfolding h by simp
qed

lemma miniURL_reparse:
  "newURL miniURL s = Some u
   \<Longrightarrow> newURL miniURL (href miniURL (clearHash miniURL u)) = Some (clearHash miniURL u)"
  using miniParse_reparse by (simp add: miniURL_def)

section \<open>removeFragment is total and idempotent\<close>

text \<open>
  C2. \<open>removeFragment\<close> returns a string for every argument, and the argument itself when
  it does not parse; and it is idempotent. Idempotence rests on two properties of the
  platform's URL class: parsing the serialisation of a URL whose hash was cleared gives
  that URL back, and clearing a hash twice is clearing it once.
\<close>

theorem removeFragment_total_idempotent:
  assumes reparse: "\<And>s u. newURL api s = Some u
                      \<Longrightarrow> newURL api (href api (clearHash api u)) = Some (clearHash api u)"
      and cleared: "\<And>u. clearHash api (clearHash api u) = clearHash api u"
  shows "(newURL api x = None \<longrightarrow> removeFragment api x = x)
         \<and> removeFragment api (removeFragment api x) = removeFragment api x"
proof (cases "newURL api x")
  case None
  then show ?thesis by (simp add: removeFragment_def)
next
  case (Some u)
  then have "removeFragment api x = href api (clearHash api u)"
    by (simp add: removeFragment_def)
  moreover have "removeFragment api (href api (clearHash api u))
                  = href api (clearHash api (clearHash api u))"
    using reparse [OF Some] by (simp add: removeFragment_def)
  ultimately show ?thesis using Some cleared by simp
qed

theorem removeFragment_total_idempotent_witness:
  "newURL miniURL (lit ''not a url'') = None
   \<and> removeFragment miniURL (lit ''not a url'') = lit ''not a url''
   \<and> removeFragment miniURL (removeFragment miniURL (lit ''not a url''))
       = removeFragment miniURL (lit ''not a url'')
   \<and> removeFragment miniURL (lit ''https://example.com/docs#intro'') = lit ''https://example.com/docs''
   \<and> removeFragment miniURL (removeFragment miniURL (lit ''https://example.com/docs#intro''))
       = lit ''https://example.com/docs''"
proof -
  have cleared: "\<And>u. clearHash miniURL (clearHash miniURL u) = clearHash miniURL u"
    by (simp add: miniURL_def)
  have bad: "newURL miniURL (lit ''not a url'') = None"
    by (simp add: miniURL_def miniParse_def lit_def startsWith_def Let_def)
  have good: "removeFragment miniURL (lit ''https://example.com/docs#intro'')
                = lit ''https://example.com/docs''"
    by (simp add: removeFragment_def miniURL_def miniParse_def miniHref_def lit_def
        startsWith_def Let_def)
  show ?thesis
    using bad good
      removeFragment_total_idempotent [of miniURL "lit ''not a url''", OF miniURL_reparse cleared]
      removeFragment_total_idempotent [of miniURL "lit ''https://example.com/docs#intro''",
        OF miniURL_reparse cleared]
    by simp
qed

section \<open>A run on the small site\<close>

lemmas demo_defs = step_def processPage_def claim_def initialState_def miniSite_def homePage_def
  notesPage_def brokenPage_def removeFragment_def miniURL_def miniParse_def miniHref_def
  miniResolve_def lit_def startsWith_def endsWith_def Let_def plainElement_def skipTags_def
  containerTags_def heading_def cleanText_def trim_def isWhiteSpace_def pageFileName_def
  stripLeadingUnit_def replaceAllUnit_def screenshotName_def extractLinks_def sameDomain_def
  notScriptOrMail_def uniqueOf_def setAdd_def frontMatter_def numberToString_def

lemma demoStart_eq:
  "demoStart = initialState (lit ''https://example.com/'') 1"
  by (simp add: demoStart_def demo_defs)

lemma demoAfterHome_eq:
  "demoAfterHome =
     \<lparr> metadata = \<lparr> startUrl = lit ''https://example.com/'', maxDepthOf = 1, pagesScraped = 1,
                    markdownFiles = 1 \<rparr>,
       visitedUrls = [lit ''https://example.com/''],
       urlQueue = [(lit ''https://example.com/a.md/b'', 1)],
       originalUrls = [lit ''https://example.com/'' \<mapsto> lit ''https://example.com/''],
       processing = [(lit ''https://example.com/'', 0)],
       documents = [(lit ''index.md'',
                     frontMatter homePage (lit ''https://example.com/'') (lit ''https://example.com/'') 0
                     @ lit ''# Home'' @ [10, 10])],
       screenshots = [lit ''index.png''] \<rparr>"
  by (simp add: demoAfterHome_def demoStart_eq demo_defs)

lemma demoAfterNotes_eq:
  "demoAfterNotes =
     \<lparr> metadata = \<lparr> startUrl = lit ''https://example.com/'', maxDepthOf = 1, pagesScraped = 2,
                    markdownFiles = 2 \<rparr>,
       visitedUrls = [lit ''https://example.com/'', lit ''https://example.com/a.md/b''],
       urlQueue = [],
       originalUrls = [lit ''https://example.com/'' \<mapsto> lit ''https://example.com/'',
                       lit ''https://example.com/a.md/b'' \<mapsto> lit ''https://example.com/a.md/b''],
       processing = [(lit ''https://example.com/'', 0), (lit ''https://example.com/a.md/b'', 1)],
       documents = [(lit ''index.md'',
                     frontMatter homePage (lit ''https://example.com/'') (lit ''https://example.com/'') 0
                     @ lit ''# Home'' @ [10, 10]),
                    (lit ''a.md_b.md'',
                     frontMatter notesPage (lit ''https://example.com/a.md/b'')
                       (lit ''https://example.com/a.md/b'') 1
                     @ lit ''notes '')],
       screenshots = [lit ''index.png'', lit ''a.png_b.md''] \<rparr>"
  by (simp add: demoAfterNotes_def demoAfterHome_eq demo_defs)


lemma demo_reachable:
  "reachable miniSite 1 (lit ''https://example.com/#start'') demoStart"
  "reachable miniSite 1 (lit ''https://example.com/#start'') demoAfterHome"
  "reachable miniSite 1 (lit ''https://example.com/#start'') demoAfterNotes"
proof -
  show a: "reachable miniSite 1 (lit ''https://example.com/#start'') demoStart"
    unfolding demoStart_def by (rule reachable.start)
  show b: "reachable miniSite 1 (lit ''https://example.com/#start'') demoAfterHome"
    unfolding demoAfterHome_def
    by (rule reachable.iteration [OF a]) (simp add: demoStart_eq initialState_def)
  show "reachable miniSite 1 (lit ''https://example.com/#start'') demoAfterNotes"
    unfolding demoAfterNotes_def
    by (rule reachable.iteration [OF b]) (simp add: demoAfterHome_eq)
qed

lemma demo_crawlLoop: "crawlLoop miniSite 1 demoStart = demoAfterNotes"
proof -
  have "crawlLoop miniSite 1 demoStart = crawlLoop miniSite 1 demoAfterHome"
    by (subst crawlLoop.simps) (simp add: demoStart_eq initialState_def demoAfterHome_def)
  also have "\<dots> = crawlLoop miniSite 1 demoAfterNotes"
    by (subst crawlLoop.simps) (simp add: demoAfterHome_eq demoAfterNotes_def [unfolded demoAfterHome_eq])
  also have "\<dots> = demoAfterNotes"
    by (subst crawlLoop.simps) (simp add: demoAfterNotes_eq)
  finally show ?thesis .
qed

lemma demo_logged:
  "logged miniSite demoAfterNotes
     = [lit ''https://example.com/'', lit ''https://example.com/a.md/b'']"
  by (simp add: logged_def demoAfterNotes_eq miniSite_def removeFragment_def miniURL_def
      miniParse_def miniHref_def lit_def startsWith_def Let_def)

lemma scrapeToMarkdown_reachable:
  "reachable env maxDepth targetUrl (finalState (scrapeToMarkdown env targetUrl maxDepth))"
  using crawlLoop_reachable [OF reachable.start, of env maxDepth targetUrl]
  by (simp add: scrapeToMarkdown_def Let_def)

lemma demo_run:
  "finalState (scrapeToMarkdown miniSite (lit ''https://example.com/#start'') 1) = demoAfterNotes"
  using demo_crawlLoop by (simp add: scrapeToMarkdown_def Let_def demoStart_def)

lemma demo_index:
  "createIndexMarkdown miniURL (visitedUrls demoAfterNotes) (originalUrls demoAfterNotes)
    = Some (lit ''- [https://example.com/](./index.md)'' @ [10]
            @ lit ''- [https://example.com/a.md/b](./a.md_b.md)'' @ [10])"
  by (simp add: createIndexMarkdown_def demoAfterNotes_eq indexFileName_def miniURL_def
      miniParse_def lit_def startsWith_def endsWith_def stripLeadingUnit_def replaceAllUnit_def
      Let_def)

section \<open>Deduplication\<close>

text \<open>
  C3. In every state of a run, the entries handed to page processing have pairwise
  different normalized addresses: no normalized address is processed twice.
\<close>

theorem no_address_processed_twice:
  assumes "reachable env maxDepth targetUrl s"
  shows "distinct (logged env s)
         \<and> (\<forall>i j. i < j \<and> j < length (processing s) \<longrightarrow>
               removeFragment (nodeURL env) (fst (processing s ! i))
                 \<noteq> removeFragment (nodeURL env) (fst (processing s ! j)))"
proof -
  have d: "distinct (logged env s)" using reachable_visited [OF assms] by simp
  have "removeFragment (nodeURL env) (fst (processing s ! i))
          \<noteq> removeFragment (nodeURL env) (fst (processing s ! j))"
    if "i < j" "j < length (processing s)" for i j
  proof -
    have "logged env s ! i \<noteq> logged env s ! j"
      using d that by (simp add: distinct_conv_nth logged_def)
    then show ?thesis using that by (simp add: logged_def)
  qed
  then show ?thesis using d by blast
qed

theorem no_address_processed_twice_witness:
  "reachable miniSite 1 (lit ''https://example.com/#start'')
     (finalState (scrapeToMarkdown miniSite (lit ''https://example.com/#start'') 1))
   \<and> processing (finalState (scrapeToMarkdown miniSite (lit ''https://example.com/#start'') 1))
       = [(lit ''https://example.com/'', 0), (lit ''https://example.com/a.md/b'', 1)]
   \<and> logged miniSite (finalState (scrapeToMarkdown miniSite (lit ''https://example.com/#start'') 1))
       = [lit ''https://example.com/'', lit ''https://example.com/a.md/b'']
   \<and> distinct (logged miniSite
         (finalState (scrapeToMarkdown miniSite (lit ''https://example.com/#start'') 1)))"
proof -
  have r: "reachable miniSite 1 (lit ''https://example.com/#start'')
     (finalState (scrapeToMarkdown miniSite (lit ''https://example.com/#start'') 1))"
    by (rule scrapeToMarkdown_reachable)
  show ?thesis
    using no_address_processed_twice [OF r] r demo_logged
    by (simp add: demo_run demoAfterNotes_eq)
qed

section \<open>The depth bound\<close>

text \<open>
  C4. In every state of a run, no processed entry has a depth greater than \<open>maxDepth\<close>,
  every queued entry is the seed or has a depth of at most \<open>maxDepth\<close>, and an iteration
  whose entry has depth \<open>maxDepth\<close> (or more) enqueues nothing: the queue after it is the
  rest of the queue before it.
\<close>

theorem depth_never_exceeds_maxDepth:
  assumes "reachable env maxDepth targetUrl s"
  shows "(\<forall>e\<in>set (processing s). int (snd e) \<le> maxDepth)
         \<and> (\<forall>e\<in>set (urlQueue s). snd e = 0 \<or> int (snd e) \<le> maxDepth)
         \<and> (\<forall>u d rest. urlQueue s = (u, d) # rest \<and> maxDepth \<le> int d
               \<longrightarrow> urlQueue (step env maxDepth s) = rest)"
proof -
  have "urlQueue (step env maxDepth s) = rest"
    if q: "urlQueue s = (u, d) # rest" and d: "maxDepth \<le> int d" for u d rest
  proof -
    obtain kids where k: "urlQueue (step env maxDepth s) = rest @ kids"
      "kids \<noteq> [] \<longrightarrow> int d < maxDepth"
      using step_queue [OF q, of env maxDepth] by blast
    then have "kids = []" using d by auto
    then show ?thesis using k(1) by simp
  qed
  then show ?thesis using reachable_depths [OF assms] by blast
qed

theorem depth_never_exceeds_maxDepth_witness:
  "reachable miniSite 1 (lit ''https://example.com/#start'') demoAfterHome
   \<and> urlQueue demoAfterHome = [(lit ''https://example.com/a.md/b'', 1)]
   \<and> anchorHrefs (renderer miniSite (lit ''https://example.com/a.md/b''))
       = [lit ''https://example.com/'', lit ''https://example.com/deeper'']
   \<and> urlQueue (step miniSite 1 demoAfterHome) = []
   \<and> processing demoAfterHome = [(lit ''https://example.com/'', 0)]
   \<and> int (snd (lit ''https://example.com/'', 0::nat)) \<le> 1"
proof -
  have q: "urlQueue demoAfterHome = [(lit ''https://example.com/a.md/b'', 1)]"
    by (simp add: demoAfterHome_eq)
  have "urlQueue (step miniSite 1 demoAfterHome) = []"
    using depth_never_exceeds_maxDepth [OF demo_reachable(2)] q by simp
  moreover have "anchorHrefs (renderer miniSite (lit ''https://example.com/a.md/b''))
       = [lit ''https://example.com/'', lit ''https://example.com/deeper'']"
    by (simp add: miniSite_def notesPage_def lit_def)
  ultimately show ?thesis using q demo_reachable(2) by (simp add: demoAfterHome_eq)
qed

lemma demo_metadataJson:
  "metadataJson (scrapeToMarkdown miniSite (lit ''https://example.com/#start'') 1)
     = Some \<lparr> startUrl = lit ''https://example.com/'', maxDepthOf = 1, pagesScraped = 2,
              markdownFiles = 2 \<rparr>"
proof -
  have "crawlLoop miniSite 1
          (initialState (removeFragment (nodeURL miniSite) (lit ''https://example.com/#start'')) 1)
        = demoAfterNotes"
    using demo_crawlLoop by (simp add: demoStart_def)
  moreover have "nodeURL miniSite = miniURL" by (simp add: miniSite_def)
  ultimately show ?thesis
    using demo_index by (simp add: scrapeToMarkdown_def Let_def demoAfterNotes_eq)
qed

section \<open>The two counters\<close>

text \<open>
  C9. In every state of a run, also between the claim of an entry and the processing of
  its page, \<open>markdownFiles\<close> is at most \<open>pagesScraped\<close>; the same holds of the metadata
  written to \<open>metadata.json\<close>, when it is written.
\<close>

theorem markdownFiles_le_pagesScraped:
  "(reachable env maxDepth targetUrl s \<longrightarrow> markdownFiles (metadata s) \<le> pagesScraped (metadata s))
   \<and> (case metadataJson (scrapeToMarkdown env targetUrl maxDepth) of
         None \<Rightarrow> True
       | Some persisted \<Rightarrow> markdownFiles persisted \<le> pagesScraped persisted)"
proof -
  have "markdownFiles (metadata (finalState (scrapeToMarkdown env targetUrl maxDepth)))
          \<le> pagesScraped (metadata (finalState (scrapeToMarkdown env targetUrl maxDepth)))"
    using scrapeToMarkdown_reachable by (rule reachable_counters)
  then have "case metadataJson (scrapeToMarkdown env targetUrl maxDepth) of
         None \<Rightarrow> True
       | Some persisted \<Rightarrow> markdownFiles persisted \<le> pagesScraped persisted"
    by (simp add: scrapeToMarkdown_def Let_def split: option.splits)
  then show ?thesis using reachable_counters by blast
qed

lemma demo_claimed:
  "reachable miniSite 1 (lit ''https://example.com/#start'')
     (claim (lit ''https://example.com/'') (lit ''https://example.com/'') 0
        (demoStart\<lparr> urlQueue := [] \<rparr>))"
proof -
  have n: "removeFragment (nodeURL miniSite) (lit ''https://example.com/'') = lit ''https://example.com/''"
    by (simp add: miniSite_def removeFragment_def miniURL_def miniParse_def miniHref_def lit_def
        startsWith_def Let_def)
  have "reachable miniSite 1 (lit ''https://example.com/#start'')
     (claim (lit ''https://example.com/'')
        (removeFragment (nodeURL miniSite) (lit ''https://example.com/'')) 0
        (demoStart\<lparr> urlQueue := [] \<rparr>))"
    by (rule reachable.claimed [OF demo_reachable(1)])
       (simp_all add: demoStart_eq initialState_def n)
  then show ?thesis by (simp only: n)
qed

theorem markdownFiles_le_pagesScraped_witness:
  "reachable miniSite 1 (lit ''https://example.com/#start'')
     (claim (lit ''https://example.com/'') (lit ''https://example.com/'') 0
        (demoStart\<lparr> urlQueue := [] \<rparr>))
   \<and> pagesScraped (metadata (claim (lit ''https://example.com/'') (lit ''https://example.com/'') 0
        (demoStart\<lparr> urlQueue := [] \<rparr>))) = 1
   \<and> markdownFiles (metadata (claim (lit ''https://example.com/'') (lit ''https://example.com/'') 0
        (demoStart\<lparr> urlQueue := [] \<rparr>))) = 0
   \<and> markdownFiles (metadata (claim (lit ''https://example.com/'') (lit ''https://example.com/'') 0
        (demoStart\<lparr> urlQueue := [] \<rparr>)))
       \<le> pagesScraped (metadata (claim (lit ''https://example.com/'') (lit ''https://example.com/'') 0
        (demoStart\<lparr> urlQueue := [] \<rparr>)))
   \<and> reachable miniSite 1 (lit ''https://example.com/#start'') demoAfterNotes
   \<and> markdownFiles (metadata demoAfterNotes) \<le> pagesScraped (metadata demoAfterNotes)
   \<and> metadataJson (scrapeToMarkdown miniSite (lit ''https://example.com/#start'') 1)
       = Some \<lparr> startUrl = lit ''https://example.com/'', maxDepthOf = 1, pagesScraped = 2,
                markdownFiles = 2 \<rparr>"
proof -
  have "pagesScraped (metadata (claim (lit ''https://example.com/'') (lit ''https://example.com/'') 0
        (demoStart\<lparr> urlQueue := [] \<rparr>))) = 1"
    "markdownFiles (metadata (claim (lit ''https://example.com/'') (lit ''https://example.com/'') 0
        (demoStart\<lparr> urlQueue := [] \<rparr>))) = 0"
    by (simp_all add: claim_def demoStart_eq initialState_def)
  then show ?thesis
    using demo_claimed demo_reachable(3)
      markdownFiles_le_pagesScraped [of miniSite 1 "lit ''https://example.com/#start''"
        "claim (lit ''https://example.com/'') (lit ''https://example.com/'') 0
           (demoStart\<lparr> urlQueue := [] \<rparr>)"]
      markdownFiles_le_pagesScraped [of miniSite 1 "lit ''https://example.com/#start''"
        demoAfterNotes]
      demo_metadataJson
    by blast
qed

section \<open>A page that fails\<close>

text \<open>
  C1, as amended. For a frontier entry that is claimed (not yet visited, depth at most
  \<open>maxDepth\<close>) and whose page fails at navigation or at extraction, \<open>markdownFiles\<close> is
  unchanged and \<open>pagesScraped\<close> is advanced by exactly one (it is incremented when the
  entry is claimed, before the page is processed); no document and no screenshot is
  written, nothing is enqueued, and the loop goes on with the rest of the queue.
\<close>

theorem failed_page_counts_as_scraped:
  assumes q: "urlQueue s = (currentUrl, depth) # rest"
    and new: "removeFragment (nodeURL env) currentUrl \<notin> set (visitedUrls s)"
    and shallow: "\<not> int depth > maxDepth"
    and fails: "failsAt (renderer env currentUrl)
                  \<in> {Some Navigation, Some MetadataExtraction, Some ContentExtraction}
                \<or> elementToMarkdown (browserURL env) currentUrl
                     (mainElement (renderer env currentUrl)) = None"
  shows "markdownFiles (metadata (step env maxDepth s)) = markdownFiles (metadata s)
         \<and> pagesScraped (metadata (step env maxDepth s)) = pagesScraped (metadata s) + 1
         \<and> documents (step env maxDepth s) = documents s
         \<and> screenshots (step env maxDepth s) = screenshots s
         \<and> urlQueue (step env maxDepth s) = rest
         \<and> crawlLoop env maxDepth s = crawlLoop env maxDepth (step env maxDepth s)"
proof -
  let ?n = "removeFragment (nodeURL env) currentUrl"
  have "step env maxDepth s = claim currentUrl ?n depth (s\<lparr> urlQueue := rest \<rparr>)"
    using new shallow by (simp add: step_process [OF q] processPage_fails_early [OF fails])
  moreover have "crawlLoop env maxDepth s = crawlLoop env maxDepth (step env maxDepth s)"
    using q by (subst crawlLoop.simps) simp
  ultimately show ?thesis by (simp add: claim_def)
qed

lemma brokenStart_facts:
  "urlQueue brokenStart = [(lit ''https://example.com/missing'', 0)]"
  "visitedUrls brokenStart = []"
  "pagesScraped (metadata brokenStart) = 0"
  "markdownFiles (metadata brokenStart) = 0"
  "failsAt (renderer miniSite (lit ''https://example.com/missing'')) = Some Navigation"
  by (simp_all add: brokenStart_def initialState_def miniSite_def brokenPage_def lit_def)

theorem failed_page_counts_as_scraped_witness:
  "urlQueue brokenStart = (lit ''https://example.com/missing'', 0) # []
   \<and> removeFragment (nodeURL miniSite) (lit ''https://example.com/missing'')
        \<notin> set (visitedUrls brokenStart)
   \<and> \<not> int 0 > 1
   \<and> failsAt (renderer miniSite (lit ''https://example.com/missing'')) = Some Navigation
   \<and> markdownFiles (metadata (step miniSite 1 brokenStart)) = 0
   \<and> pagesScraped (metadata (step miniSite 1 brokenStart)) = 1
   \<and> urlQueue (step miniSite 1 brokenStart) = []"
proof -
  have q: "urlQueue brokenStart = (lit ''https://example.com/missing'', 0) # []"
    and new: "removeFragment (nodeURL miniSite) (lit ''https://example.com/missing'')
                \<notin> set (visitedUrls brokenStart)"
    and shallow: "\<not> int 0 > 1"
    and fails: "failsAt (renderer miniSite (lit ''https://example.com/missing''))
                  \<in> {Some Navigation, Some MetadataExtraction, Some ContentExtraction}
                \<or> elementToMarkdown (browserURL miniSite) (lit ''https://example.com/missing'')
                     (mainElement (renderer miniSite (lit ''https://example.com/missing''))) = None"
    by (simp_all add: brokenStart_facts)
  show ?thesis
    using failed_page_counts_as_scraped [OF q new shallow fails] q new
    by (simp add: brokenStart_facts)
qed

text \<open>
  The claim as it was stated, that such an entry leaves the run metadata unchanged, fails
  for a target whose navigation fails: \<open>pagesScraped\<close> goes from 0 to 1.
\<close>

theorem failed_page_changes_metadata:
  "urlQueue brokenStart = [(lit ''https://example.com/missing'', 0)]
   \<and> failsAt (renderer miniSite (lit ''https://example.com/missing'')) = Some Navigation
   \<and> pagesScraped (metadata brokenStart) = 0
   \<and> pagesScraped (metadata (step miniSite 1 brokenStart)) = 1
   \<and> metadata (step miniSite 1 brokenStart) \<noteq> metadata brokenStart"
proof -
  have "pagesScraped (metadata (step miniSite 1 brokenStart)) = 1"
    by (simp add: brokenStart_def demo_defs)
  then show ?thesis using brokenStart_facts by auto
qed

section \<open>Block quotes are one line\<close>

text \<open>
  C10. For every string, \<open>cleanText\<close> returns a string without a newline; so a displayed
  \<open>blockquote\<close> element is rendered as one line, \<open>> \<close> followed by its cleaned text,
  followed by two newlines.
\<close>

theorem cleanText_no_newline_blockquote_one_line:
  "10 \<notin> set (cleanText text)
   \<and> (d \<noteq> lit ''none'' \<and> v \<noteq> lit ''hidden'' \<longrightarrow>
        elementToMarkdown api baseUrl (Element (lit ''blockquote'') a d v ns)
          = Some (lit ''> '' @ cleanText (nodesTextContent ns) @ [10, 10])
        \<and> 10 \<notin> set (lit ''> '' @ cleanText (nodesTextContent ns)))"
proof -
  have "(10::16 word) \<notin> set (lit ''> '')" by (simp add: lit_def)
  then show ?thesis
    using cleanText_no_newline blockquote_case [of d v api baseUrl a ns]
    by (simp add: blockquote_one_line)
qed


theorem cleanText_no_newline_blockquote_one_line_witness:
  "cleanText ([32, 10] @ lit ''a'' @ [10, 0x2028, 9] @ lit ''b'' @ [13, 10]) = lit ''a b''
   \<and> 10 \<notin> set (cleanText ([32, 10] @ lit ''a'' @ [10, 0x2028, 9] @ lit ''b'' @ [13, 10]))
   \<and> lit ''block'' \<noteq> lit ''none'' \<and> lit ''visible'' \<noteq> lit ''hidden''
   \<and> elementToMarkdown miniURL (lit ''https://example.com/'')
        (Element (lit ''blockquote'') [] (lit ''block'') (lit ''visible'')
           [TextNode ([32, 10] @ lit ''a'' @ [10, 0x2028, 9] @ lit ''b'' @ [13, 10])])
       = Some (lit ''> a b'' @ [10, 10])"
proof -
  have c: "cleanText ([32, 10] @ lit ''a'' @ [10, 0x2028, 9] @ lit ''b'' @ [13, 10]) = lit ''a b''"
    by (simp add: cleanText_def trim_def isWhiteSpace_def lit_def)
  have v: "lit ''block'' \<noteq> lit ''none'' \<and> lit ''visible'' \<noteq> lit ''hidden''"
    by (simp add: lit_def)
  have g: "lit ''> '' @ lit ''a b'' @ [10, 10] = lit ''> a b'' @ [10, 10]"
    by (simp add: lit_def)
  note t = cleanText_no_newline_blockquote_one_line
      [of "[32, 10] @ lit ''a'' @ [10, 0x2028, 9] @ lit ''b'' @ [13, 10]"
          "lit ''block''" "lit ''visible''" miniURL "lit ''https://example.com/''" "[]"
          "[TextNode ([32, 10] @ lit ''a'' @ [10, 0x2028, 9] @ lit ''b'' @ [13, 10])]"]
  from t v have "10 \<notin> set (cleanText ([32, 10] @ lit ''a'' @ [10, 0x2028, 9] @ lit ''b'' @ [13, 10]))"
    and "elementToMarkdown miniURL (lit ''https://example.com/'')
        (Element (lit ''blockquote'') [] (lit ''block'') (lit ''visible'')
           [TextNode ([32, 10] @ lit ''a'' @ [10, 0x2028, 9] @ lit ''b'' @ [13, 10])])
       = Some (lit ''> '' @ cleanText (nodesTextContent
           [TextNode ([32, 10] @ lit ''a'' @ [10, 0x2028, 9] @ lit ''b'' @ [13, 10])]) @ [10, 10])"
    by blast+
  then show ?thesis
    using c v g by (simp del: elementToMarkdown.simps)
qed

section \<open>The same-domain filter\<close>

text \<open>
  C7. \<open>sameDomain\<close> accepts every link that starts with \<open>/\<close>. It accepts any other link
  exactly when the page address parses, the link resolves against it, and the two host
  names are equal. Links that are empty or start with \<open>javascript:\<close> or \<open>mailto:\<close> are
  removed before \<open>sameDomain\<close> is applied, so no harvested link starts with either.
\<close>

theorem same_domain_filter:
  "(startsWith urlStr (lit ''/'') \<longrightarrow> sameDomain api baseUrl urlStr)
   \<and> (\<not> startsWith urlStr (lit ''/'') \<longrightarrow>
        sameDomain api baseUrl urlStr
          = (case (newURL api baseUrl, newURLWithBase api urlStr baseUrl) of
               (Some base, Some url) \<Rightarrow> hostname api url = hostname api base
             | _ \<Rightarrow> False))
   \<and> extractLinks api baseUrl hrefs
       = filter (sameDomain api baseUrl)
           (filter (\<lambda>h. h \<noteq> [] \<and> \<not> startsWith h (lit ''javascript:'')
                         \<and> \<not> startsWith h (lit ''mailto:'')) hrefs)
   \<and> (\<forall>h \<in> set (extractLinks api baseUrl hrefs).
         \<not> startsWith h (lit ''javascript:'') \<and> \<not> startsWith h (lit ''mailto:''))"
  by (auto simp: sameDomain_def extractLinks_def notScriptOrMail_def split: option.splits)


theorem same_domain_filter_witness:
  "startsWith (lit ''/about'') (lit ''/'')
   \<and> sameDomain miniURL (lit ''https://example.com/'') (lit ''/about'')
   \<and> \<not> startsWith (lit ''https://example.com/a.md/b'') (lit ''/'')
   \<and> sameDomain miniURL (lit ''https://example.com/'') (lit ''https://example.com/a.md/b'')
   \<and> \<not> startsWith (lit ''https://other.org/'') (lit ''/'')
   \<and> \<not> sameDomain miniURL (lit ''https://example.com/'') (lit ''https://other.org/'')
   \<and> extractLinks miniURL (lit ''https://example.com/'')
         [lit ''https://example.com/a.md/b'', lit ''mailto:me@example.com'',
          lit ''javascript:void(0)'', lit ''https://other.org/'']
       = [lit ''https://example.com/a.md/b'']"
proof -
  note ev = miniURL_def miniParse_def miniResolve_def lit_def startsWith_def Let_def
  have a: "sameDomain miniURL (lit ''https://example.com/'') (lit ''/about'')"
    using same_domain_filter [of "lit ''/about''" miniURL "lit ''https://example.com/''" "[]"]
    by (simp add: startsWith_def lit_def)
  have b: "sameDomain miniURL (lit ''https://example.com/'') (lit ''https://example.com/a.md/b'')"
    using same_domain_filter [of "lit ''https://example.com/a.md/b''" miniURL
        "lit ''https://example.com/''" "[]"]
    by (simp add: ev)
  have c: "\<not> sameDomain miniURL (lit ''https://example.com/'') (lit ''https://other.org/'')"
    using same_domain_filter [of "lit ''https://other.org/''" miniURL
        "lit ''https://example.com/''" "[]"]
    by (simp add: ev)
  have d: "extractLinks miniURL (lit ''https://example.com/'')
         [lit ''https://example.com/a.md/b'', lit ''mailto:me@example.com'',
          lit ''javascript:void(0)'', lit ''https://other.org/'']
       = filter (sameDomain miniURL (lit ''https://example.com/''))
           [lit ''https://example.com/a.md/b'', lit ''https://other.org/'']"
    using same_domain_filter [of "[]" miniURL "lit ''https://example.com/''"
        "[lit ''https://example.com/a.md/b'', lit ''mailto:me@example.com'',
          lit ''javascript:void(0)'', lit ''https://other.org/'']"]
    by (simp add: startsWith_def lit_def)
  show ?thesis
    using a b c d by (simp add: startsWith_def lit_def)
qed

section \<open>The index links to the documents written\<close>








end
